theory Spec2Isabelle
  imports Main "HOL-Library.Multiset"
begin

section \<open>Strings and the path utilities of Node\<close>

text \<open>
  A JavaScript string is modelled as a \<^typ>\<open>string\<close> holding its UTF-8 bytes. Every
  character the program inspects (\<open>/\<close>, \<open>\\<close>, \<open>.\<close>) is ASCII, and an ASCII byte
  never occurs inside the encoding of another character, so splitting, comparing
  and concatenating bytes agrees with the same operation on the code units.
\<close>

abbreviation slash :: char where
  "slash \<equiv> CHR ''/''"

abbreviation backslash :: char where
  "backslash \<equiv> CHR 0x5C"

text \<open>
  \<open>String.prototype.split\<close> with a separator that matches exactly one character:
  the pieces between the separators, empty pieces kept. \<open>piece\<close> holds the
  characters read since the last separator.
\<close>

fun split_from :: "(char \<Rightarrow> bool) \<Rightarrow> string \<Rightarrow> string \<Rightarrow> string list" where
  "split_from sep piece [] = [piece]"
| "split_from sep piece (c # cs) =
     (if sep c then piece # split_from sep [] cs else split_from sep (piece @ [c]) cs)"

definition split_on :: "(char \<Rightarrow> bool) \<Rightarrow> string \<Rightarrow> string list" where
  "split_on sep s = split_from sep [] s"

text \<open>\<open>Array.prototype.join\<close> with the separator \<open>/\<close>.\<close>

fun join_slash :: "string list \<Rightarrow> string" where
  "join_slash [] = []"
| "join_slash [s] = s"
| "join_slash (s # t # ss) = s @ slash # join_slash (t # ss)"

text \<open>
  \<open>path.basename\<close> of Node for POSIX: trailing slashes are dropped, and the
  characters after the last remaining slash are returned.
\<close>

definition basename :: "string \<Rightarrow> string" where
  "basename p =
     rev (takeWhile (\<lambda>c. c \<noteq> slash) (dropWhile (\<lambda>c. c = slash) (rev p)))"

text \<open>
  \<open>path.dirname\<close> of Node for POSIX. The scan runs from the end of the path
  down to index 1: it skips the trailing slashes, then the last component, and
  stops at the slash before it; the path up to (not including) that slash is
  the directory. Index 0 is never scanned: it only decides between \<open>/\<close> and
  \<open>.\<close> when no slash is found.
\<close>

definition dirname :: "string \<Rightarrow> string" where
  "dirname p =
     (case p of
        [] \<Rightarrow> ''.''
      | c # cs \<Rightarrow>
          (let hasRoot = (c = slash);
               scanned = dropWhile (\<lambda>c. c \<noteq> slash) (dropWhile (\<lambda>c. c = slash) (rev cs))
           in case scanned of
                [] \<Rightarrow> if hasRoot then ''/'' else ''.''
              | _ # front \<Rightarrow>
                  if hasRoot \<and> front = [] then ''//'' else c # rev front))"

text \<open>
  \<open>path.resolve\<close> and \<open>path.relative\<close> of Node for POSIX, on segments. A
  relative path is resolved against the working directory of the process,
  \<open>cwd\<close>, an absolute path; empty segments and \<open>.\<close> are dropped and \<open>..\<close> removes the segment
  before it (nothing at the root).
\<close>

definition normalize_step :: "string list \<Rightarrow> string \<Rightarrow> string list" where
  "normalize_step stack s =
     (if s = [] \<or> s = ''.'' then stack
      else if s = ''..'' then butlast stack
      else stack @ [s])"

definition resolve :: "string \<Rightarrow> string \<Rightarrow> string list" where
  "resolve cwd p =
     foldl normalize_step []
       (if p \<noteq> [] \<and> hd p = slash then split_on (\<lambda>c. c = slash) p
        else split_on (\<lambda>c. c = slash) cwd @ split_on (\<lambda>c. c = slash) p)"

fun drop_common :: "string list \<Rightarrow> string list \<Rightarrow> string list \<times> string list" where
  "drop_common (x # xs) (y # ys) =
     (if x = y then drop_common xs ys else (x # xs, y # ys))"
| "drop_common xs ys = (xs, ys)"

definition relative :: "string \<Rightarrow> string \<Rightarrow> string \<Rightarrow> string" where
  "relative cwd from to =
     (if from = to then []
      else
        let f = resolve cwd from; t = resolve cwd to in
        if f = t then []
        else case drop_common f t of
               (up, down) \<Rightarrow> join_slash (replicate (length up) ''..'' @ down))"

section \<open>The tree items\<close>

text \<open>
  Of a \<open>Uri\<close> the program reads only \<open>fsPath\<close>. \<open>git.CommittedFile\<close> is the
  record the change list is made of; the class \<open>CommittedFile\<close> implements it
  and adds the label of the tree item. A status is a string, or \<open>null\<close>
  (\<open>None\<close>) for a focused file that is not in the change list. The command and
  the icon of a tree item are presentation only and are left out.
\<close>

datatype Uri = Uri (fsPath: string)

record git_CommittedFile =
  uri :: Uri
  gitRelativePath :: string
  status :: "string option"

record CommittedFile = git_CommittedFile +
  label :: string

datatype FolderItem =
  FolderItem (folder_gitRelativePath: string) (folder_label: string)
    (subFolders: "FolderItem list") (files: "CommittedFile list")

text \<open>
  The separator of a label, \<^verbatim>\<open>' \u00a0\u2022\u00a0 '\<close>: space, no-break space, bullet,
  no-break space, space, in UTF-8.
\<close>

definition label_separator :: string where
  "label_separator =
     [CHR '' '', CHR 0xC2, CHR 0xA0, CHR 0xE2, CHR 0x80, CHR 0xA2, CHR 0xC2, CHR 0xA0, CHR '' '']"

definition getFormatedLabel :: "string \<Rightarrow> string" where
  "getFormatedLabel relativePath =
     (let name = basename relativePath;
          dir = dirname relativePath;
          dir = (if dir = ''.'' then [] else dir)
      in name @ label_separator @ dir)"

text \<open>
  The label format as the specification words it:
  \<open>basename(p) + sep + (dirname(p) == "." ? "" : dirname(p))\<close>, the separator
  being printed there as two spaces, a bullet and two spaces (\<open>U+0020 U+0020
  U+2022 U+0020 U+0020\<close>).
\<close>

definition spec_separator :: string where
  "spec_separator =
     [CHR 0x20, CHR 0x20, CHR 0xE2, CHR 0x80, CHR 0xA2, CHR 0x20, CHR 0x20]"

definition formatLabel :: "string \<Rightarrow> string" where
  "formatLabel p = basename p @ spec_separator @ (if dirname p = ''.'' then '''' else dirname p)"

definition createCommittedFile :: "'a git_CommittedFile_scheme \<Rightarrow> CommittedFile" where
  "createCommittedFile file =
     \<lparr>uri = uri file, gitRelativePath = gitRelativePath file, status = status file,
      label = getFormatedLabel (gitRelativePath file)\<rparr>"

section \<open>The tree builder\<close>

text \<open>
  \<open>folder = parent.subFolders.find(...)\<close> yields the first child with the
  label, and the loop then changes that object in place; in the model the first
  child with the label is replaced by its changed value.
\<close>

fun replace_first :: "('a \<Rightarrow> bool) \<Rightarrow> 'a \<Rightarrow> 'a list \<Rightarrow> 'a list" where
  "replace_first P y [] = []"
| "replace_first P y (x # xs) = (if P x then y # xs else x # replace_first P y xs)"

text \<open>
  The loop of \<open>buildOneFileWithFolder\<close> over \<open>segments[0 .. length - 2]\<close>,
  followed by the push of the file node into the folder reached. A folder that
  is created is pushed to its parent and then filled through the same object.
  \<open>prefix\<close> is the local variable \<open>gitRelativePath\<close> of the source.
\<close>

fun walk :: "string list \<Rightarrow> string \<Rightarrow> CommittedFile \<Rightarrow> FolderItem \<Rightarrow> FolderItem" where
  "walk [] prefix leaf parent =
     FolderItem (folder_gitRelativePath parent) (folder_label parent)
       (subFolders parent) (files parent @ [leaf])"
| "walk (segment # segments) prefix leaf parent =
     (let prefix = prefix @ segment @ ''/'' in
      case find (\<lambda>item. folder_label item = segment) (subFolders parent) of
        None \<Rightarrow>
          FolderItem (folder_gitRelativePath parent) (folder_label parent)
            (subFolders parent @
               [walk segments prefix leaf (FolderItem prefix segment [] [])])
            (files parent)
      | Some folder \<Rightarrow>
          FolderItem (folder_gitRelativePath parent) (folder_label parent)
            (replace_first (\<lambda>item. folder_label item = segment)
               (walk segments prefix leaf folder) (subFolders parent))
            (files parent))"

text \<open>
  \<open>segments\<close> is the result of a split and so has a last element
  (\<open>segments[i]\<close> after the loop, with \<open>i = segments.length - 1\<close>).
\<close>

definition buildOneFileWithFolder ::
  "string \<Rightarrow> FolderItem \<Rightarrow> 'a git_CommittedFile_scheme \<Rightarrow> string \<Rightarrow> FolderItem" where
  "buildOneFileWithFolder cwd rootFolder file relateivePath =
     (let segments =
        (if relateivePath \<noteq> []
         then split_on (\<lambda>c. c = backslash \<or> c = slash)
                (relative cwd relateivePath (gitRelativePath file))
         else split_on (\<lambda>c. c = slash) (gitRelativePath file))
      in walk (butlast segments) relateivePath
           \<lparr>uri = uri file, gitRelativePath = gitRelativePath file, status = status file,
            label = last segments\<rparr>
           rootFolder)"

definition buildFileTree ::
  "string \<Rightarrow> FolderItem \<Rightarrow> 'a git_CommittedFile_scheme list \<Rightarrow> bool \<Rightarrow> FolderItem" where
  "buildFileTree cwd rootFolder fs withFolder =
     (if withFolder
      then foldl (\<lambda>folder file. buildOneFileWithFolder cwd folder file []) rootFolder fs
      else FolderItem (folder_gitRelativePath rootFolder) (folder_label rootFolder)
             (subFolders rootFolder) (files rootFolder @ map createCommittedFile fs))"

definition buildCommitFolder ::
  "string \<Rightarrow> string \<Rightarrow> 'a git_CommittedFile_scheme list \<Rightarrow> bool \<Rightarrow> FolderItem" where
  "buildCommitFolder cwd lbl committedFiles withFolder =
     buildFileTree cwd (FolderItem [] lbl [] []) committedFiles withFolder"

section \<open>The tree transformers\<close>

text \<open>
  \<open>buildFilesWithoutFolder(rootFolder, folder)\<close> appends the relabelled files
  of \<open>folder\<close> and of its descendants to \<open>rootFolder.files\<close> and leaves
  \<open>folder\<close> empty. The result is the changed \<open>rootFolder\<close> and the emptied
  \<open>folder\<close>. The only caller passes a folder and one of its child folders,
  so \<open>rootFolder\<close> and \<open>folder\<close> are different objects.
\<close>

definition relabel :: "string \<Rightarrow> string \<Rightarrow> CommittedFile \<Rightarrow> CommittedFile" where
  "relabel cwd rootPath file =
     file\<lparr>label :=
       getFormatedLabel
         (map (\<lambda>c. if c = backslash then slash else c)
            (relative cwd rootPath (gitRelativePath file)))\<rparr>"

fun buildFilesWithoutFolder ::
  "string \<Rightarrow> FolderItem \<Rightarrow> FolderItem \<Rightarrow> FolderItem \<times> FolderItem" where
  "buildFilesWithoutFolder cwd rootFolder (FolderItem p l subs fs) =
     (let rootFolder =
            FolderItem (folder_gitRelativePath rootFolder) (folder_label rootFolder)
              (subFolders rootFolder)
              (files rootFolder @ map (relabel cwd (folder_gitRelativePath rootFolder)) fs);
          rootFolder = foldl (\<lambda>r f. fst (buildFilesWithoutFolder cwd r f)) rootFolder subs
      in (rootFolder, FolderItem p l [] []))"

fun buildFilesWithFolder :: "string \<Rightarrow> FolderItem \<Rightarrow> FolderItem" where
  "buildFilesWithFolder cwd (FolderItem p l subs fs) =
     foldl (\<lambda>rootFolder file. buildOneFileWithFolder cwd rootFolder file p)
       (FolderItem p l (map (buildFilesWithFolder cwd) subs) [])
       fs"

text \<open>
  The commands \<open>githd.showFilesWithFolder\<close> and \<open>githd.showFilesWithoutFolder\<close>
  on a folder (the branch \<open>parent\<close> given): the change made to \<open>parent\<close>.
\<close>

definition showFilesWithFolder :: "string \<Rightarrow> FolderItem \<Rightarrow> FolderItem" where
  "showFilesWithFolder cwd parent = buildFilesWithFolder cwd parent"

definition showFilesWithoutFolder :: "string \<Rightarrow> FolderItem \<Rightarrow> FolderItem" where
  "showFilesWithoutFolder cwd parent =
     (let flat = foldl (\<lambda>r folder. fst (buildFilesWithoutFolder cwd r folder)) parent
                   (subFolders parent)
      in FolderItem (folder_gitRelativePath flat) (folder_label flat) [] (files flat))"

section \<open>The focus folder\<close>

text \<open>
  \<open>file.gitRelativePath.search(relativePath)\<close>: \<open>String.prototype.search\<close>
  turns its string argument into a regular expression (\<open>new RegExp(relativePath)\<close>)
  and returns the index of the first match, or \<open>-1\<close>. The model covers the
  patterns made of ordinary characters and of \<open>.\<close>, which matches any one character
  but a line terminator. A pattern with another syntax character of regular
  expressions (for some of which \<open>RegExp\<close> throws a \<open>SyntaxError\<close>) is outside
  the model, and so is \<open>.\<close> against a string that is not ASCII, where a
  character is more than one byte: the result is \<open>None\<close> there. \<open>None\<close>
  is not a result of the program: it says that the model does not tell what the
  program does on this input. The index counts bytes; it is \<open>0\<close> exactly when
  the index in code units is \<open>0\<close>, which is all that the program asks.
\<close>

datatype atom = Lit char | AnyChar

definition syntax_character :: "char \<Rightarrow> bool" where
  "syntax_character c = (c \<in> set ''^$.*+?()[]{}|'' \<or> c = backslash)"

fun parse_pattern :: "string \<Rightarrow> atom list option" where
  "parse_pattern [] = Some []"
| "parse_pattern (c # cs) =
     (if c = CHR ''.'' then map_option ((#) AnyChar) (parse_pattern cs)
      else if syntax_character c then None
      else map_option ((#) (Lit c)) (parse_pattern cs))"

fun atom_matches :: "atom \<Rightarrow> char \<Rightarrow> bool" where
  "atom_matches (Lit a) c = (a = c)"
| "atom_matches AnyChar c = (c \<noteq> CHR 0x0A \<and> c \<noteq> CHR 0x0D)"

fun match_here :: "atom list \<Rightarrow> string \<Rightarrow> bool" where
  "match_here [] s = True"
| "match_here (a # as) [] = False"
| "match_here (a # as) (c # cs) = (atom_matches a c \<and> match_here as cs)"

fun search_from :: "atom list \<Rightarrow> string \<Rightarrow> int \<Rightarrow> int" where
  "search_from as [] i = (if match_here as [] then i else - 1)"
| "search_from as (c # cs) i =
     (if match_here as (c # cs) then i else search_from as cs (i + 1))"

definition ascii :: "char \<Rightarrow> bool" where
  "ascii c = (of_char c < (128 :: nat))"

definition search :: "string \<Rightarrow> string \<Rightarrow> int option" where
  "search str pattern =
     (case parse_pattern pattern of
        None \<Rightarrow> None
      | Some as \<Rightarrow>
          if AnyChar \<in> set as \<and> \<not> list_all ascii str then None
          else Some (search_from as str 0))"

text \<open>
  The \<open>forEach\<close> of the directory case: the records whose search result is
  \<open>0\<close>, as file nodes, in the order of the change list.
\<close>

fun focus_of :: "string \<Rightarrow> 'a git_CommittedFile_scheme list \<Rightarrow> CommittedFile list option" where
  "focus_of relativePath [] = Some []"
| "focus_of relativePath (file # committedFiles) =
     (case search (gitRelativePath file) relativePath of
        None \<Rightarrow> None
      | Some i \<Rightarrow>
          (case focus_of relativePath committedFiles of
             None \<Rightarrow> None
           | Some focus \<Rightarrow>
               Some (if i = 0 then createCommittedFile file # focus else focus)))"

datatype focus_error = LstatFailed | PatternOutsideModel

text \<open>
  \<open>buildFocusFolder\<close>. Its two questions to the outside are inputs of the
  model: \<open>relativePath\<close> is what \<open>git.getGitRelativePath(specifiedPath)\<close>
  resolves to, and \<open>isFile\<close> is the answer of
  \<open>fs.lstatSync(specifiedPath.fsPath).isFile()\<close>, \<open>None\<close> when \<open>lstatSync\<close>
  throws (no such path). \<open>LstatFailed\<close> is that exception;
  \<open>PatternOutsideModel\<close> is no error of the program but the mark of a focus
  path on which the model of \<open>search\<close> says nothing: what the program
  builds there is not modelled.
\<close>

definition buildFocusFolder ::
  "string \<Rightarrow> string \<Rightarrow> Uri \<Rightarrow> string \<Rightarrow> bool option \<Rightarrow> 'a git_CommittedFile_scheme list \<Rightarrow> bool
   \<Rightarrow> focus_error + FolderItem" where
  "buildFocusFolder cwd lbl specifiedPath relativePath isFile committedFiles withFolder =
     (let folder = FolderItem [] lbl [] [] in
      case isFile of
        None \<Rightarrow> Inl LstatFailed
      | Some True \<Rightarrow>
          (let file = find (\<lambda>v. fsPath (uri v) = fsPath specifiedPath) committedFiles;
               focus = \<lparr>uri = specifiedPath, gitRelativePath = relativePath,
                        status = (case file of Some f \<Rightarrow> status f | None \<Rightarrow> None),
                        label = getFormatedLabel relativePath\<rparr>
           in Inr (FolderItem (folder_gitRelativePath folder) (folder_label folder)
                     (subFolders folder) (files folder @ [focus])))
      | Some False \<Rightarrow>
          (case focus_of relativePath committedFiles of
             None \<Rightarrow> Inl PatternOutsideModel
           | Some focus \<Rightarrow> Inr (buildFileTree cwd folder focus withFolder)))"

text \<open>
  The status lookup of the single-file case as the specification words it:
  the first record whose path equals the focus path up to the case of letters.
\<close>

definition lower :: "char \<Rightarrow> char" where
  "lower c =
     (case map_of (zip ''ABCDEFGHIJKLMNOPQRSTUVWXYZ'' ''abcdefghijklmnopqrstuvwxyz'') c of
        Some l \<Rightarrow> l
      | None \<Rightarrow> c)"

definition status_ignoring_case ::
  "Uri \<Rightarrow> 'a git_CommittedFile_scheme list \<Rightarrow> string option" where
  "status_ignoring_case specifiedPath committedFiles =
     (case find (\<lambda>v. map lower (fsPath (uri v)) = map lower (fsPath specifiedPath))
             committedFiles of
        Some f \<Rightarrow> status f
      | None \<Rightarrow> None)"

text \<open>
  The directory case as the specification words it: the records whose path
  starts with the focus path.
\<close>

definition starts_with :: "string \<Rightarrow> string \<Rightarrow> bool" where
  "starts_with str p = (take (length p) str = p)"

definition focus_by_prefix ::
  "string \<Rightarrow> 'a git_CommittedFile_scheme list \<Rightarrow> CommittedFile list" where
  "focus_by_prefix relativePath committedFiles =
     map createCommittedFile
       (filter (\<lambda>file. starts_with (gitRelativePath file) relativePath) committedFiles)"

section \<open>The provider\<close>

text \<open>
  \<open>getChildren\<close>. An element is a file node or a folder; the cast
  \<open>element as FolderItem\<close> checks nothing, and reading a property that an
  object does not have yields \<open>undefined\<close>. \<open>[].concat(a, b)\<close> appends the
  elements of an argument that is an array and the argument itself otherwise.
  An object is always truthy, so the final \<open>return []\<close> is never reached.
\<close>

datatype CommittedTreeItem = File CommittedFile | Folder FolderItem

datatype property = Missing | Array "CommittedTreeItem list"

datatype element = Undefined | Item CommittedTreeItem

fun get_subFolders :: "CommittedTreeItem \<Rightarrow> property" where
  "get_subFolders (File f) = Missing"
| "get_subFolders (Folder folder) = Array (map Folder (subFolders folder))"

fun get_files :: "CommittedTreeItem \<Rightarrow> property" where
  "get_files (File f) = Missing"
| "get_files (Folder folder) = Array (map File (files folder))"

fun concat_argument :: "property \<Rightarrow> element list" where
  "concat_argument Missing = [Undefined]"
| "concat_argument (Array items) = map Item items"

definition getChildren :: "FolderItem list \<Rightarrow> CommittedTreeItem option \<Rightarrow> element list" where
  "getChildren rootFolder element =
     (case element of
        None \<Rightarrow> map (\<lambda>folder. Item (Folder folder)) rootFolder
      | Some folder \<Rightarrow> concat_argument (get_subFolders folder) @ concat_argument (get_files folder))"

text \<open>
  \<open>_update\<close>. A ref is a string or \<open>undefined\<close>; it is falsy when undefined
  or empty. The run of \<open>_update\<close> is the sequence of what it does to the
  provider, in the order in which the single thread does it:
  \<open>Reset\<close> is \<open>this._rootFolder = []\<close>, \<open>Push\<close> a \<open>this._rootFolder.push\<close>,
  \<open>Fire\<close> is \<open>this._onDidChange.fire()\<close>, \<open>Await\<close> a point where the
  running function is suspended and the host can call \<open>getChildren\<close>,
  \<open>Rejected\<close> the rejection of a promise that nothing handles, which ends
  the function it occurs in, and \<open>NotModelled\<close> the place from which the
  model does not follow the program (a focus path outside the model of
  \<open>search\<close>). The run is that of one call of \<open>_update\<close>: a second call
  that starts before the first has ended is not modelled.
\<close>

record FilesViewContext =
  leftRef :: "string option"
  rightRef :: "string option"
  specifiedPath :: "Uri option"

definition truthy :: "string option \<Rightarrow> bool" where
  "truthy r = (r \<noteq> None \<and> r \<noteq> Some [])"

definition ref_text :: "string option \<Rightarrow> string" where
  "ref_text r = (case r of Some s \<Rightarrow> s | None \<Rightarrow> ''undefined'')"

datatype rejection =
  GetCommittedFilesRejected | GetGitRelativePathRejected | LstatSyncThrew

datatype event = Reset | Await | Push FolderItem | Fire | Rejected rejection | NotModelled

text \<open>
  An \<open>async\<close> function runs in the call up to its first \<open>await\<close> and the
  rest later. When the caller does not await the promise, the caller goes on
  first: what the callee does after its \<open>await\<close> comes after the rest of the
  caller.
\<close>

record async_call =
  before_await :: "event list"
  after_await :: "event list"

definition call_without_await :: "async_call \<Rightarrow> event list \<Rightarrow> event list" where
  "call_without_await callee rest_of_caller =
     before_await callee @ rest_of_caller @ Await # after_await callee"

definition buildCommitTree ::
  "string \<Rightarrow> 'a git_CommittedFile_scheme list \<Rightarrow> string \<Rightarrow> bool \<Rightarrow> event list" where
  "buildCommitTree cwd fs ref withFolder =
     [Push (buildCommitFolder cwd (''Changes of Commit '' @ ref) fs withFolder)]"

definition buildDiffBranchTree ::
  "string \<Rightarrow> 'a git_CommittedFile_scheme list \<Rightarrow> string \<Rightarrow> string \<Rightarrow> bool \<Rightarrow> event list" where
  "buildDiffBranchTree cwd fs left right withFolder =
     [Push (buildCommitFolder cwd (''Diffs between '' @ left @ '' and '' @ right) fs withFolder)]"

text \<open>
  The two path-specified builders await \<open>buildFocusFolder\<close>, which itself
  first awaits \<open>git.getGitRelativePath\<close>: nothing is pushed before that
  \<open>await\<close>. \<open>relativePath\<close> is what \<open>git.getGitRelativePath\<close> resolves
  to, \<open>None\<close> when it rejects. \<open>continue\<close> is what the builder does with
  the focus folder once it has it.
\<close>

definition await_buildFocusFolder ::
  "string \<Rightarrow> string \<Rightarrow> Uri \<Rightarrow> string option \<Rightarrow> bool option \<Rightarrow> 'a git_CommittedFile_scheme list
   \<Rightarrow> bool \<Rightarrow> (FolderItem \<Rightarrow> event list) \<Rightarrow> event list" where
  "await_buildFocusFolder cwd lbl path relativePath isFile fs withFolder continue =
     (case relativePath of
        None \<Rightarrow> [Rejected GetGitRelativePathRejected]
      | Some relativePath \<Rightarrow>
          (case buildFocusFolder cwd lbl path relativePath isFile fs withFolder of
             Inl LstatFailed \<Rightarrow> [Rejected LstatSyncThrew]
           | Inl PatternOutsideModel \<Rightarrow> [NotModelled]
           | Inr focus \<Rightarrow> continue focus))"

definition buildPathSpecifiedCommitTree ::
  "string \<Rightarrow> 'a git_CommittedFile_scheme list \<Rightarrow> Uri \<Rightarrow> string option \<Rightarrow> bool option \<Rightarrow> string
   \<Rightarrow> bool \<Rightarrow> async_call" where
  "buildPathSpecifiedCommitTree cwd fs path relativePath isFile ref withFolder =
     \<lparr>before_await = [],
      after_await =
        await_buildFocusFolder cwd ''Focus'' path relativePath isFile fs withFolder
          (\<lambda>focus.
             [Push focus,
              Push (buildCommitFolder cwd (''Changes of Commit '' @ ref) fs withFolder)])\<rparr>"

definition buildPathSpecifiedDiffBranchTree ::
  "string \<Rightarrow> 'a git_CommittedFile_scheme list \<Rightarrow> FilesViewContext \<Rightarrow> Uri \<Rightarrow> string option
   \<Rightarrow> bool option \<Rightarrow> bool \<Rightarrow> async_call" where
  "buildPathSpecifiedDiffBranchTree cwd fs ctx path relativePath isFile withFolder =
     \<lparr>before_await = [],
      after_await =
        await_buildFocusFolder cwd (ref_text (leftRef ctx) @ '' .. '' @ ref_text (rightRef ctx))
          path relativePath isFile fs withFolder
          (\<lambda>focus. [Push focus])\<rparr>"

text \<open>
  \<open>committedFiles\<close> is what \<open>git.getCommittedFiles(leftRef, rightRef)\<close>
  resolves to, \<open>None\<close> when it rejects: then \<open>_update\<close> ends there, after
  it has emptied the root sequence and before any notification.
  \<open>relativePath\<close> and \<open>isFile\<close> are the inputs of the focus folder.
\<close>

definition update ::
  "string \<Rightarrow> bool \<Rightarrow> FilesViewContext \<Rightarrow> git_CommittedFile list option \<Rightarrow> string option
   \<Rightarrow> bool option \<Rightarrow> event list" where
  "update cwd withFolder ctx committedFiles relativePath isFile =
     Reset #
     (if \<not> truthy (rightRef ctx) then [Fire]
      else
        Await #
        (case committedFiles of
           None \<Rightarrow> [Rejected GetCommittedFilesRejected]
         | Some committedFiles \<Rightarrow>
             (case specifiedPath ctx of
                None \<Rightarrow>
                  (if \<not> truthy (leftRef ctx)
                   then buildCommitTree cwd committedFiles (ref_text (rightRef ctx)) withFolder
                   else buildDiffBranchTree cwd committedFiles (ref_text (leftRef ctx))
                          (ref_text (rightRef ctx)) withFolder)
                  @ [Fire]
              | Some path \<Rightarrow>
                  (if \<not> truthy (leftRef ctx)
                   then call_without_await
                          (buildPathSpecifiedCommitTree cwd committedFiles path relativePath
                             isFile (ref_text (rightRef ctx)) withFolder)
                          [Fire]
                   else call_without_await
                          (buildPathSpecifiedDiffBranchTree cwd committedFiles ctx path
                             relativePath isFile withFolder)
                          [Fire]))))"

text \<open>
  The root sequence after a run, the root sequence at each notification, and
  the root sequence at each point where the host can look at it.
\<close>

fun step :: "FolderItem list \<Rightarrow> event \<Rightarrow> FolderItem list" where
  "step roots Reset = []"
| "step roots (Push folder) = roots @ [folder]"
| "step roots e = roots"

definition run :: "FolderItem list \<Rightarrow> event list \<Rightarrow> FolderItem list" where
  "run roots events = foldl step roots events"

fun fired :: "FolderItem list \<Rightarrow> event list \<Rightarrow> FolderItem list list" where
  "fired roots [] = []"
| "fired roots (Fire # events) = roots # fired roots events"
| "fired roots (e # events) = fired (step roots e) events"




section \<open>What is compared between two trees\<close>

text \<open>
  The identity of a file is what the change list says of it: its uri, its
  relative path and its status; the label is presentation. Of a tree: all its
  file nodes, the file nodes paired with the path of the folder they are
  attached to, the paths of its folders, and the pairs of the path of a folder
  and the path of a child folder.
\<close>

definition ident :: "'a git_CommittedFile_scheme \<Rightarrow> Uri \<times> string \<times> string option" where
  "ident file = (uri file, gitRelativePath file, status file)"

fun all_files :: "FolderItem \<Rightarrow> CommittedFile list" where
  "all_files (FolderItem p l subs fs) = fs @ concat (map all_files subs)"

fun attached :: "FolderItem \<Rightarrow> (string \<times> CommittedFile) list" where
  "attached (FolderItem p l subs fs) = map (Pair p) fs @ concat (map attached subs)"

fun folder_paths :: "FolderItem \<Rightarrow> string list" where
  "folder_paths (FolderItem p l subs fs) = p # concat (map folder_paths subs)"

fun edges :: "FolderItem \<Rightarrow> (string \<times> string) list" where
  "edges (FolderItem p l subs fs) =
     map (\<lambda>c. (p, folder_gitRelativePath c)) subs @ concat (map edges subs)"

text \<open>
  No folder of the tree has two child folders with the same label, and no
  folder of the tree has two files with the same label.
\<close>

fun unique_folder_labels :: "FolderItem \<Rightarrow> bool" where
  "unique_folder_labels (FolderItem p l subs fs) =
     (distinct (map folder_label subs) \<and> list_all unique_folder_labels subs)"

fun unique_file_labels :: "FolderItem \<Rightarrow> bool" where
  "unique_file_labels (FolderItem p l subs fs) =
     (distinct (map label fs) \<and> list_all unique_file_labels subs)"

definition unique_labels :: "FolderItem \<Rightarrow> bool" where
  "unique_labels t = (unique_folder_labels t \<and> unique_file_labels t)"

text \<open>
  The path of every child folder is the path of its parent, the label of the
  child and a slash.
\<close>

fun wf_paths :: "FolderItem \<Rightarrow> bool" where
  "wf_paths (FolderItem p l subs fs) =
     list_all (\<lambda>c. folder_gitRelativePath c = p @ folder_label c @ ''/'' \<and> wf_paths c) subs"

text \<open>
  For the segments of a path below a folder of path \<open>p\<close>: the path of the
  folder that the walk ends in, the paths of the folders it passes, and the
  pairs of parent and child among them.
\<close>

definition dir_of :: "string \<Rightarrow> string list \<Rightarrow> string" where
  "dir_of p segments = p @ concat (map (\<lambda>s. s @ ''/'') segments)"

fun prefix_paths :: "string \<Rightarrow> string list \<Rightarrow> string list" where
  "prefix_paths p [] = [p]"
| "prefix_paths p (s # ss) = p # prefix_paths (p @ s @ ''/'') ss"

fun prefix_edges :: "string \<Rightarrow> string list \<Rightarrow> (string \<times> string) list" where
  "prefix_edges p [] = []"
| "prefix_edges p (s # ss) = (p, p @ s @ ''/'') # prefix_edges (p @ s @ ''/'') ss"

text \<open>
  Where the nested build from a root of empty path puts the file of an
  identity: the folder path, and the node with its label.
\<close>

definition nested_dir :: "string \<Rightarrow> string" where
  "nested_dir path = dir_of [] (butlast (split_on (\<lambda>c. c = slash) path))"

definition nested_node :: "Uri \<times> string \<times> string option \<Rightarrow> CommittedFile" where
  "nested_node i =
     \<lparr>uri = fst i, gitRelativePath = fst (snd i), status = snd (snd i),
      label = last (split_on (\<lambda>c. c = slash) (fst (snd i)))\<rparr>"

section \<open>The example of the specification\<close>

definition example_records :: "git_CommittedFile list" where
  "example_records =
     [\<lparr>uri = Uri ''/repo/src/a.ts'', gitRelativePath = ''src/a.ts'', status = Some ''M''\<rparr>,
      \<lparr>uri = Uri ''/repo/src/b.ts'', gitRelativePath = ''src/b.ts'', status = Some ''A''\<rparr>,
      \<lparr>uri = Uri ''/repo/README.md'', gitRelativePath = ''README.md'', status = Some ''D''\<rparr>]"

text \<open>
  A change list with two directories whose names differ in one character, a
  root sequence left by an earlier build, and two view contexts: a commit alone
  and a commit with a specified path.
\<close>

definition focus_records :: "git_CommittedFile list" where
  "focus_records =
     [\<lparr>uri = Uri ''/repo/lib.v2/a.ts'', gitRelativePath = ''lib.v2/a.ts'', status = Some ''M''\<rparr>,
      \<lparr>uri = Uri ''/repo/lib-v2/b.ts'', gitRelativePath = ''lib-v2/b.ts'', status = Some ''A''\<rparr>]"

definition old_roots :: "FolderItem list" where
  "old_roots = [FolderItem [] ''Changes of Commit 0'' [] []]"


definition focus_context :: FilesViewContext where
  "focus_context =
     \<lparr>leftRef = None, rightRef = Some ''1'', specifiedPath = Some (Uri ''/repo/src'')\<rparr>"

text \<open>
  Two records with different paths: a file in the root whose name contains the
  separator of the labels, and a file \<open>a\<close> in the directory \<open>d\<close>.
\<close>

definition clash_records :: "git_CommittedFile list" where
  "clash_records =
     [\<lparr>uri = Uri (''/repo/a'' @ label_separator @ ''d''),
       gitRelativePath = ''a'' @ label_separator @ ''d'', status = Some ''M''\<rparr>,
      \<lparr>uri = Uri ''/repo/d/a'', gitRelativePath = ''d/a'', status = Some ''M''\<rparr>]"

section \<open>Labels\<close>

text \<open>
  What the two path functions return on the relative paths of a change list:
  for a file name \<open>n\<close> without a slash, alone or after a directory \<open>d\<close>.
\<close>

lemma skip_no_slash:
  assumes "n \<noteq> []" "slash \<notin> set n"
  shows "dropWhile (\<lambda>c. c = slash) (rev n @ rest) = rev n @ rest"
proof (cases "rev n")
  case Nil
  then show ?thesis using assms(1) by simp
next
  case (Cons x xs)
  have "x \<in> set (rev n)"
    by (simp add: Cons)
  then have "x \<noteq> slash"
    using assms(2) by auto
  then show ?thesis
    by (simp add: Cons)
qed

lemma scan_name:
  assumes "slash \<notin> set n"
  shows "takeWhile (\<lambda>c. c \<noteq> slash) (rev n @ slash # rest) = rev n"
    and "dropWhile (\<lambda>c. c \<noteq> slash) (rev n @ slash # rest) = slash # rest"
    and "takeWhile (\<lambda>c. c \<noteq> slash) (rev n) = rev n"
    and "dropWhile (\<lambda>c. c \<noteq> slash) (rev n) = []"
proof -
  have all: "\<And>c. c \<in> set (rev n) \<Longrightarrow> c \<noteq> slash"
    using assms by auto
  have "takeWhile (\<lambda>c. c \<noteq> slash) (rev n @ slash # rest) =
      rev n @ takeWhile (\<lambda>c. c \<noteq> slash) (slash # rest)"
    by (rule takeWhile_append2) (use all in blast)
  then show "takeWhile (\<lambda>c. c \<noteq> slash) (rev n @ slash # rest) = rev n"
    by simp
  have "dropWhile (\<lambda>c. c \<noteq> slash) (rev n @ slash # rest) =
      dropWhile (\<lambda>c. c \<noteq> slash) (slash # rest)"
    by (rule dropWhile_append2) (use all in blast)
  then show "dropWhile (\<lambda>c. c \<noteq> slash) (rev n @ slash # rest) = slash # rest"
    by simp
  show "takeWhile (\<lambda>c. c \<noteq> slash) (rev n) = rev n"
    using all by (simp add: takeWhile_eq_all_conv)
  show "dropWhile (\<lambda>c. c \<noteq> slash) (rev n) = []"
    using all by (simp add: dropWhile_eq_Nil_conv)
qed

lemma basename_of_file_in_directory:
  assumes "n \<noteq> []" "slash \<notin> set n"
  shows "basename (d @ ''/'' @ n) = n"
  unfolding basename_def rev_append
  using skip_no_slash [OF assms, of "rev ''/'' @ rev d"] scan_name(1) [OF assms(2), of "rev d"]
  by simp


lemma dirname_of_file_in_directory:
  assumes "n \<noteq> []" "slash \<notin> set n" "d \<noteq> []" "last d \<noteq> slash"
  shows "dirname (d @ ''/'' @ n) = d"
proof -
  obtain c cs where d: "d = c # cs"
    using assms(3) by (cases d) simp_all
  have root: "\<not> (c = slash \<and> rev cs = [])"
    using assms(4) d by auto
  have "rev (cs @ ''/'' @ n) = rev n @ slash # rev cs"
    by simp
  then have scanned: "dropWhile (\<lambda>c. c \<noteq> slash) (dropWhile (\<lambda>c. c = slash) (rev (cs @ ''/'' @ n))) =
      slash # rev cs"
    using skip_no_slash [OF assms(1,2), of "slash # rev cs"] scan_name(2) [OF assms(2), of "rev cs"]
    by simp
  have "dirname (c # cs @ ''/'' @ n) = c # rev (rev cs)"
    unfolding dirname_def list.case Let_def scanned using root by simp
  then show ?thesis
    by (simp add: d)
qed

lemma basename_dirname_of_file_in_root:
  assumes "n \<noteq> []" "slash \<notin> set n"
  shows "basename n = n" and "dirname n = ''.''"
proof -
  have skip: "dropWhile (\<lambda>c. c = slash) (rev n) = rev n"
    using skip_no_slash [OF assms, of "[]"] by simp
  show "basename n = n"
    unfolding basename_def skip scan_name(3) [OF assms(2)] by (rule rev_rev_ident)
  obtain c cs where n: "n = c # cs"
    using assms(1) by (cases n) simp_all
  have c: "c \<noteq> slash" and cs: "slash \<notin> set cs"
    using assms(2) n by auto
  have scanned: "dropWhile (\<lambda>c. c \<noteq> slash) (dropWhile (\<lambda>c. c = slash) (rev cs)) = []"
  proof (cases "cs = []")
    case True
    then show ?thesis by simp
  next
    case False
    have "dropWhile (\<lambda>c. c = slash) (rev cs) = rev cs"
      using skip_no_slash [OF False cs, of "[]"] by simp
    then show ?thesis
      by (simp only: scan_name(4) [OF cs])
  qed
  have "dirname (c # cs) = ''.''"
    unfolding dirname_def list.case Let_def scanned using c by simp
  then show "dirname n = ''.''"
    by (simp only: n)
qed

lemma label_of_file_in_directory:
  assumes "n \<noteq> []" "slash \<notin> set n" "d \<noteq> []" "last d \<noteq> slash" "d \<noteq> ''.''"
  shows "getFormatedLabel (d @ ''/'' @ n) = n @ label_separator @ d"
  unfolding getFormatedLabel_def Let_def
    basename_of_file_in_directory [OF assms(1,2)] dirname_of_file_in_directory [OF assms(1-4)]
  using assms(5) by simp

lemma label_of_file_in_root:
  assumes "n \<noteq> []" "slash \<notin> set n"
  shows "getFormatedLabel n = n @ label_separator"
  unfolding getFormatedLabel_def Let_def basename_dirname_of_file_in_root [OF assms]
  by simp

lemma label_never_spec_separator:
  "getFormatedLabel p \<noteq> formatLabel p"
  by (simp add: getFormatedLabel_def formatLabel_def label_separator_def spec_separator_def
      Let_def)

text \<open>
  C8, as the code has it. For every relative path, the label is the base
  name, then the five characters space, no-break space, bullet, no-break space,
  space (\<open>U+0020 U+00A0 U+2022 U+00A0 U+0020\<close>, here in UTF-8), then the
  directory name, the directory name \<open>.\<close> being replaced by the empty string;
  the function is defined on every string.
\<close>

theorem getFormatedLabel_formula:
  "getFormatedLabel p =
     basename p @
     [CHR 0x20, CHR 0xC2, CHR 0xA0, CHR 0xE2, CHR 0x80, CHR 0xA2, CHR 0xC2, CHR 0xA0, CHR 0x20] @
     (if dirname p = ''.'' then [] else dirname p)"
  by (simp add: getFormatedLabel_def label_separator_def Let_def)

text \<open>
  C8 as stated fails: the separator is not two spaces, a bullet and two spaces
  (\<open>U+0020 U+0020 U+2022 U+0020 U+0020\<close>); the neighbours of the bullet are
  no-break spaces.
\<close>

theorem getFormatedLabel_counterexample:
  "getFormatedLabel ''src/a.ts'' =
     ''a.ts'' @
     [CHR 0x20, CHR 0xC2, CHR 0xA0, CHR 0xE2, CHR 0x80, CHR 0xA2, CHR 0xC2, CHR 0xA0, CHR 0x20] @
     ''src'' \<and>
   formatLabel ''src/a.ts'' =
     ''a.ts'' @ [CHR 0x20, CHR 0x20, CHR 0xE2, CHR 0x80, CHR 0xA2, CHR 0x20, CHR 0x20] @ ''src'' \<and>
   getFormatedLabel ''src/a.ts'' \<noteq> formatLabel ''src/a.ts''"
  by (simp add: getFormatedLabel_def formatLabel_def label_separator_def spec_separator_def
      basename_def dirname_def)

section \<open>Children of an element\<close>

text \<open>
  C10. For a file node as element, \<open>getChildren\<close> returns two entries, both
  \<open>undefined\<close>, and not the empty sequence; with no element it returns the
  roots, and for a folder its child folders followed by its files.
\<close>

theorem getChildren_of_file_node:
  "getChildren rootFolder (Some (File f)) = [Undefined, Undefined] \<and>
   getChildren rootFolder (Some (File f)) \<noteq> [] \<and>
   getChildren rootFolder None = map (\<lambda>folder. Item (Folder folder)) rootFolder \<and>
   getChildren rootFolder (Some (Folder d)) =
     map (\<lambda>folder. Item (Folder folder)) (subFolders d) @ map (\<lambda>file. Item (File file)) (files d)"
  by (simp add: getChildren_def comp_def)

section \<open>The nested build of the example\<close>

lemma nested_build_of_example:
  "buildCommitFolder cwd lbl
     [\<lparr>uri = u1, gitRelativePath = ''src/a.ts'', status = s1\<rparr>,
      \<lparr>uri = u2, gitRelativePath = ''src/b.ts'', status = s2\<rparr>,
      \<lparr>uri = u3, gitRelativePath = ''README.md'', status = s3\<rparr>] True =
   FolderItem [] lbl
     [FolderItem ''src/'' ''src'' []
        [\<lparr>uri = u1, gitRelativePath = ''src/a.ts'', status = s1, label = ''a.ts''\<rparr>,
         \<lparr>uri = u2, gitRelativePath = ''src/b.ts'', status = s2, label = ''b.ts''\<rparr>]]
     [\<lparr>uri = u3, gitRelativePath = ''README.md'', status = s3, label = ''README.md''\<rparr>]"
  by (simp add: buildCommitFolder_def buildFileTree_def buildOneFileWithFolder_def split_on_def)

text \<open>
  C5, as the code has it. The nested build of the three records of the example
  is a root with one child folder \<open>src\<close>, of path \<open>src/\<close>, holding the files
  labelled \<open>a.ts\<close> and \<open>b.ts\<close>, and one file of its own, labelled
  \<open>README.md\<close>: the label of a file in a nested tree is its last segment.
\<close>

theorem nested_example:
  "buildCommitFolder cwd lbl
     [\<lparr>uri = u1, gitRelativePath = ''src/a.ts'', status = Some ''M''\<rparr>,
      \<lparr>uri = u2, gitRelativePath = ''src/b.ts'', status = Some ''A''\<rparr>,
      \<lparr>uri = u3, gitRelativePath = ''README.md'', status = Some ''D''\<rparr>] True =
   FolderItem [] lbl
     [FolderItem ''src/'' ''src'' []
        [\<lparr>uri = u1, gitRelativePath = ''src/a.ts'', status = Some ''M'', label = ''a.ts''\<rparr>,
         \<lparr>uri = u2, gitRelativePath = ''src/b.ts'', status = Some ''A'', label = ''b.ts''\<rparr>]]
     [\<lparr>uri = u3, gitRelativePath = ''README.md'', status = Some ''D'', label = ''README.md''\<rparr>]"
  by (rule nested_build_of_example)

text \<open>
  C5 as stated fails: the file of the root is not labelled with the separator
  after its name.
\<close>

theorem nested_example_counterexample:
  "map label (files (buildCommitFolder ''/'' ''Changes of Commit 1'' example_records True))
     \<noteq> [''README.md'' @ label_separator]"
  by (simp add: example_records_def nested_build_of_example label_separator_def)

section \<open>Flattening the example\<close>

lemma drop_common_append: "drop_common xs (xs @ ys) = ([], ys)"
  by (induction xs) (cases ys, simp_all)

lemma relative_from_root_examples:
  "relative cwd [] ''src/a.ts'' = ''src/a.ts''"
  "relative cwd [] ''src/b.ts'' = ''src/b.ts''"
  by (simp_all add: relative_def resolve_def split_on_def normalize_step_def drop_common_append)

lemma getFormatedLabel_examples:
  "getFormatedLabel ''src/a.ts'' = ''a.ts'' @ label_separator @ ''src''"
  "getFormatedLabel ''src/b.ts'' = ''b.ts'' @ label_separator @ ''src''"
  "getFormatedLabel ''README.md'' = ''README.md'' @ label_separator"
  by (simp_all add: getFormatedLabel_def basename_def dirname_def)

lemma flat_of_nested_example:
  "showFilesWithoutFolder cwd
     (buildCommitFolder cwd lbl
        [\<lparr>uri = u1, gitRelativePath = ''src/a.ts'', status = s1\<rparr>,
         \<lparr>uri = u2, gitRelativePath = ''src/b.ts'', status = s2\<rparr>,
         \<lparr>uri = u3, gitRelativePath = ''README.md'', status = s3\<rparr>] True) =
   FolderItem [] lbl []
     [\<lparr>uri = u3, gitRelativePath = ''README.md'', status = s3, label = ''README.md''\<rparr>,
      \<lparr>uri = u1, gitRelativePath = ''src/a.ts'', status = s1,
         label = ''a.ts'' @ label_separator @ ''src''\<rparr>,
      \<lparr>uri = u2, gitRelativePath = ''src/b.ts'', status = s2,
         label = ''b.ts'' @ label_separator @ ''src''\<rparr>]"
  by (simp add: nested_build_of_example showFilesWithoutFolder_def relabel_def
        relative_from_root_examples getFormatedLabel_examples)

lemma flat_build_of_example:
  "buildCommitFolder cwd lbl
     [\<lparr>uri = u1, gitRelativePath = ''src/a.ts'', status = s1\<rparr>,
      \<lparr>uri = u2, gitRelativePath = ''src/b.ts'', status = s2\<rparr>,
      \<lparr>uri = u3, gitRelativePath = ''README.md'', status = s3\<rparr>] False =
   FolderItem [] lbl []
     [\<lparr>uri = u1, gitRelativePath = ''src/a.ts'', status = s1,
         label = ''a.ts'' @ label_separator @ ''src''\<rparr>,
      \<lparr>uri = u2, gitRelativePath = ''src/b.ts'', status = s2,
         label = ''b.ts'' @ label_separator @ ''src''\<rparr>,
      \<lparr>uri = u3, gitRelativePath = ''README.md'', status = s3,
         label = ''README.md'' @ label_separator\<rparr>]"
  by (simp add: buildCommitFolder_def buildFileTree_def createCommittedFile_def
      getFormatedLabel_examples)

text \<open>
  C2, as the code has it. The command \<open>githd.showFilesWithoutFolder\<close> on
  the root folder of the nested tree of the example (\<open>_showFilesWithoutFolder\<close>
  with that folder as \<open>parent\<close>) leaves three file nodes and no folder:
  first the file the root already had, with the label \<open>README.md\<close> that it
  keeps, then the files of \<open>src\<close> with the labels \<open>a.ts\<close>, separator,
  \<open>src\<close> and \<open>b.ts\<close>, separator, \<open>src\<close>, the separator being space,
  no-break space, bullet, no-break space, space
  (\<open>U+0020 U+00A0 U+2022 U+00A0 U+0020\<close>, here in UTF-8). The files of a
  folder come before those of its subfolders. (The same command without a
  folder builds the forest anew, flat; \<open>flat_build_of_example\<close> is the root
  it builds.)
\<close>

theorem flatten_example:
  "showFilesWithoutFolder cwd
     (buildCommitFolder cwd lbl
        [\<lparr>uri = u1, gitRelativePath = ''src/a.ts'', status = Some ''M''\<rparr>,
         \<lparr>uri = u2, gitRelativePath = ''src/b.ts'', status = Some ''A''\<rparr>,
         \<lparr>uri = u3, gitRelativePath = ''README.md'', status = Some ''D''\<rparr>] True) =
   FolderItem [] lbl []
     [\<lparr>uri = u3, gitRelativePath = ''README.md'', status = Some ''D'', label = ''README.md''\<rparr>,
      \<lparr>uri = u1, gitRelativePath = ''src/a.ts'', status = Some ''M'',
         label = ''a.ts'' @
           [CHR 0x20, CHR 0xC2, CHR 0xA0, CHR 0xE2, CHR 0x80, CHR 0xA2, CHR 0xC2, CHR 0xA0, CHR 0x20] @
           ''src''\<rparr>,
      \<lparr>uri = u2, gitRelativePath = ''src/b.ts'', status = Some ''A'',
         label = ''b.ts'' @
           [CHR 0x20, CHR 0xC2, CHR 0xA0, CHR 0xE2, CHR 0x80, CHR 0xA2, CHR 0xC2, CHR 0xA0, CHR 0x20] @
           ''src''\<rparr>]"
  by (simp add: flat_of_nested_example label_separator_def)

text \<open>
  C2 as stated fails: the labels are not in the order \<open>a.ts\<close>, \<open>b.ts\<close>,
  \<open>README.md\<close>, and the last is not followed by a separator, whether the
  separator is read as that of the code or as the specification prints it.
\<close>

theorem flatten_example_counterexample:
  "map label (files (showFilesWithoutFolder ''/''
      (buildCommitFolder ''/'' ''Changes of Commit 1'' example_records True))) \<noteq>
   [''a.ts'' @ label_separator @ ''src'', ''b.ts'' @ label_separator @ ''src'',
    ''README.md'' @ label_separator] \<and>
   map label (files (showFilesWithoutFolder ''/''
      (buildCommitFolder ''/'' ''Changes of Commit 1'' example_records True))) \<noteq>
   [''a.ts'' @ spec_separator @ ''src'', ''b.ts'' @ spec_separator @ ''src'',
    ''README.md'' @ spec_separator]"
  by (simp add: example_records_def flat_of_nested_example label_separator_def spec_separator_def)

section \<open>The focus on a single file\<close>

text \<open>
  C7, as the code has it. In the single-file case the result is a root folder
  with no child folder and exactly one file node, for the focus path; its
  status is that of the first record whose \<open>fsPath\<close> is equal to the
  \<open>fsPath\<close> of the focus path, character by character, and it is absent when
  no record has that \<open>fsPath\<close>.
\<close>

theorem focus_on_file:
  "\<exists>focus.
     buildFocusFolder cwd lbl focusPath relativePath (Some True) committedFiles withFolder =
       Inr (FolderItem [] lbl [] [focus]) \<and>
     uri focus = focusPath \<and> gitRelativePath focus = relativePath \<and>
     label focus = getFormatedLabel relativePath \<and>
     ((\<forall>v \<in> set committedFiles. fsPath (uri v) \<noteq> fsPath focusPath) \<longrightarrow>
        status focus = None) \<and>
     (\<forall>i < length committedFiles.
        fsPath (uri (committedFiles ! i)) = fsPath focusPath \<and>
        (\<forall>j < i. fsPath (uri (committedFiles ! j)) \<noteq> fsPath focusPath) \<longrightarrow>
        status focus = status (committedFiles ! i))"
proof (cases "find (\<lambda>v. fsPath (uri v) = fsPath focusPath) committedFiles")
  case None
  then have no: "\<forall>v \<in> set committedFiles. fsPath (uri v) \<noteq> fsPath focusPath"
    by (simp add: find_None_iff)
  then have "\<forall>i < length committedFiles. fsPath (uri (committedFiles ! i)) \<noteq> fsPath focusPath"
    by simp
  with None show ?thesis
    by (simp add: buildFocusFolder_def)
next
  case (Some f)
  then obtain k where k: "k < length committedFiles" "f = committedFiles ! k"
      "fsPath (uri (committedFiles ! k)) = fsPath focusPath"
      "\<forall>j < k. fsPath (uri (committedFiles ! j)) \<noteq> fsPath focusPath"
    by (auto simp: find_Some_iff)
  have first: "i = k" if "i < length committedFiles"
      "fsPath (uri (committedFiles ! i)) = fsPath focusPath"
      "\<forall>j < i. fsPath (uri (committedFiles ! j)) \<noteq> fsPath focusPath" for i
    using that k by (meson linorder_neqE_nat)
  have some: "\<not> (\<forall>v \<in> set committedFiles. fsPath (uri v) \<noteq> fsPath focusPath)"
    using k by (metis nth_mem)
  show ?thesis
    using Some k(2) first some by (auto simp: buildFocusFolder_def)
qed

theorem focus_on_file_witness:
  "(\<exists>focus.
     buildFocusFolder ''/'' ''Focus'' (Uri ''/repo/README.md'') ''README.md'' (Some True)
       example_records True = Inr (FolderItem [] ''Focus'' [] [focus]) \<and>
     status focus = Some ''D'') \<and>
   (\<exists>focus.
     buildFocusFolder ''/'' ''Focus'' (Uri ''/repo/docs/readme2.md'') ''docs/readme2.md'' (Some True)
       example_records True = Inr (FolderItem [] ''Focus'' [] [focus]) \<and>
     status focus = None \<and> label focus = ''readme2.md'' @ label_separator @ ''docs'')"
proof
  obtain focus where
    a: "buildFocusFolder ''/'' ''Focus'' (Uri ''/repo/README.md'') ''README.md'' (Some True)
          example_records True = Inr (FolderItem [] ''Focus'' [] [focus])" and
    b: "\<forall>i < length example_records.
          fsPath (uri (example_records ! i)) = fsPath (Uri ''/repo/README.md'') \<and>
          (\<forall>j < i. fsPath (uri (example_records ! j)) \<noteq> fsPath (Uri ''/repo/README.md'')) \<longrightarrow>
          status focus = status (example_records ! i)"
    using focus_on_file [of "''/''" "''Focus''" "Uri ''/repo/README.md''" "''README.md''"
        example_records True]
    by blast
  have "status focus = status (example_records ! 2)"
    using b [rule_format, of 2] by (simp add: example_records_def less_Suc_eq numeral_2_eq_2)
  then have "status focus = Some ''D''"
    by (simp add: example_records_def)
  with a show "\<exists>focus.
     buildFocusFolder ''/'' ''Focus'' (Uri ''/repo/README.md'') ''README.md'' (Some True)
       example_records True = Inr (FolderItem [] ''Focus'' [] [focus]) \<and>
     status focus = Some ''D''"
    by blast
next
  obtain focus where
    a: "buildFocusFolder ''/'' ''Focus'' (Uri ''/repo/docs/readme2.md'') ''docs/readme2.md''
          (Some True) example_records True = Inr (FolderItem [] ''Focus'' [] [focus])" and
    l: "label focus = getFormatedLabel ''docs/readme2.md''" and
    b: "(\<forall>v \<in> set example_records. fsPath (uri v) \<noteq> fsPath (Uri ''/repo/docs/readme2.md'')) \<longrightarrow>
          status focus = None"
    using focus_on_file [of "''/''" "''Focus''" "Uri ''/repo/docs/readme2.md''"
        "''docs/readme2.md''" example_records True]
    by blast
  have "status focus = None"
    using b by (simp add: example_records_def)
  moreover have "label focus = ''readme2.md'' @ label_separator @ ''docs''"
    using l by (simp add: getFormatedLabel_def basename_def dirname_def)
  ultimately show "\<exists>focus.
     buildFocusFolder ''/'' ''Focus'' (Uri ''/repo/docs/readme2.md'') ''docs/readme2.md'' (Some True)
       example_records True = Inr (FolderItem [] ''Focus'' [] [focus]) \<and>
     status focus = None \<and> label focus = ''readme2.md'' @ label_separator @ ''docs''"
    using a by blast
qed

text \<open>
  C7 as stated fails: a record whose path differs from the focus path in the
  case of letters only is not found, and the status is absent.
\<close>

theorem focus_on_file_counterexample:
  "buildFocusFolder ''/'' ''Focus'' (Uri ''/repo/readme.md'') ''readme.md'' (Some True)
     example_records True =
   Inr (FolderItem [] ''Focus'' []
     [\<lparr>uri = Uri ''/repo/readme.md'', gitRelativePath = ''readme.md'', status = None,
       label = ''readme.md'' @ label_separator\<rparr>]) \<and>
   status_ignoring_case (Uri ''/repo/readme.md'') example_records = Some ''D''"
  by (simp add: buildFocusFolder_def example_records_def status_ignoring_case_def lower_def
      getFormatedLabel_def basename_def dirname_def)

section \<open>The focus on a directory\<close>

text \<open>
  For a focus path without a syntax character of regular expressions, the
  search is a test for a prefix.
\<close>

lemma search_from_range:
  "0 \<le> i \<Longrightarrow> search_from as s i = - 1 \<or> i \<le> search_from as s i"
proof (induction s arbitrary: i)
  case Nil
  show ?case by simp
next
  case (Cons c cs)
  show ?case
    using Cons.IH [of "i + 1"] Cons.prems by auto
qed

lemma search_from_start:
  "search_from as s 0 = 0 \<longleftrightarrow> match_here as s"
proof (cases s)
  case Nil
  then show ?thesis by simp
next
  case (Cons c cs)
  then show ?thesis
    using search_from_range [of 1 as cs] by auto
qed

lemma parse_plain:
  "\<forall>c \<in> set p. \<not> syntax_character c \<Longrightarrow> parse_pattern p = Some (map Lit p)"
  by (induction p) (auto simp: syntax_character_def)

lemma match_here_plain:
  "match_here (map Lit p) s \<longleftrightarrow> starts_with s p"
proof (induction p arbitrary: s)
  case Nil
  show ?case by (simp add: starts_with_def)
next
  case (Cons a p)
  then show ?case
    by (cases s) (auto simp: starts_with_def)
qed

lemma focus_of_plain:
  "\<forall>c \<in> set relativePath. \<not> syntax_character c \<Longrightarrow>
     focus_of relativePath committedFiles = Some (focus_by_prefix relativePath committedFiles)"
proof (induction committedFiles)
  case Nil
  show ?case by (simp add: focus_by_prefix_def)
next
  case (Cons a committedFiles)
  have "search (gitRelativePath a) relativePath =
      Some (search_from (map Lit relativePath) (gitRelativePath a) 0)"
    using Cons.prems by (auto simp: search_def parse_plain)
  then show ?case
    using Cons by (simp add: focus_by_prefix_def search_from_start match_here_plain)
qed

text \<open>
  C1. With the focus path \<open>lib.v2\<close> the record \<open>lib-v2/b.ts\<close> is kept,
  although its path does not start with \<open>lib.v2\<close>: the focus path is used as
  a regular expression, in which \<open>.\<close> matches any character. The records
  whose path has the prefix are the first one only.
\<close>

theorem focus_on_directory_regexp:
  "buildFocusFolder ''/'' ''Focus'' (Uri ''/repo/lib.v2'') ''lib.v2'' (Some False)
     focus_records False =
   Inr (FolderItem [] ''Focus'' []
     [\<lparr>uri = Uri ''/repo/lib.v2/a.ts'', gitRelativePath = ''lib.v2/a.ts'', status = Some ''M'',
       label = ''a.ts'' @ label_separator @ ''lib.v2''\<rparr>,
      \<lparr>uri = Uri ''/repo/lib-v2/b.ts'', gitRelativePath = ''lib-v2/b.ts'', status = Some ''A'',
       label = ''b.ts'' @ label_separator @ ''lib-v2''\<rparr>]) \<and>
   \<not> starts_with ''lib-v2/b.ts'' ''lib.v2'' \<and>
   focus_by_prefix ''lib.v2'' focus_records =
     [\<lparr>uri = Uri ''/repo/lib.v2/a.ts'', gitRelativePath = ''lib.v2/a.ts'', status = Some ''M'',
       label = ''a.ts'' @ label_separator @ ''lib.v2''\<rparr>]"
  by (simp add: buildFocusFolder_def focus_records_def search_def syntax_character_def ascii_def
      createCommittedFile_def buildFileTree_def starts_with_def focus_by_prefix_def
      getFormatedLabel_def basename_def dirname_def)

section \<open>Rebuilding the forest\<close>



lemma update_rejected:
  "truthy (rightRef ctx) \<Longrightarrow>
     fired old (update cwd withFolder ctx None relativePath isFile) = [] \<and>
     run old (update cwd withFolder ctx None relativePath isFile) = []"
  by (simp add: update_def run_def)




lemma update_with_path_fires_first:
  "fired old_roots
     (update ''/'' True focus_context (Some example_records) (Some ''src'') (Some False)) = [[]] \<and>
   length (run old_roots
     (update ''/'' True focus_context (Some example_records) (Some ''src'') (Some False))) = 2"
  by (simp add: update_def run_def focus_context_def truthy_def call_without_await_def
      buildPathSpecifiedCommitTree_def await_buildFocusFolder_def buildFocusFolder_def example_records_def
      search_def syntax_character_def)

section \<open>Inserting one file into a tree\<close>

lemma walk_root [simp]:
  "folder_gitRelativePath (walk segs p leaf parent) = folder_gitRelativePath parent"
  "folder_label (walk segs p leaf parent) = folder_label parent"
  by (cases segs; simp add: Let_def split: option.split)+

lemma find_label:
  "find (\<lambda>item. folder_label item = seg) subs = Some folder \<Longrightarrow>
     folder \<in> set subs \<and> folder_label folder = seg"
  by (auto simp: find_Some_iff)

lemma replace_first_concat_mset:
  "find P xs = Some x \<Longrightarrow>
     mset (concat (map g (replace_first P y xs))) + mset (g x) =
     mset (concat (map g xs)) + mset (g y)"
  by (induction xs) (auto split: if_splits)

lemma replace_first_concat_set:
  "find P xs = Some x \<Longrightarrow> set (g x) \<subseteq> set (g y) \<Longrightarrow>
     set (concat (map g (replace_first P y xs))) = set (concat (map g xs)) \<union> set (g y)"
  by (induction xs) (auto split: if_splits)

lemma walk_all_files:
  "mset (map ident (all_files (walk segs p leaf parent))) =
     mset (map ident (all_files parent)) + {#ident leaf#}"
proof (induction segs arbitrary: p parent)
  case Nil
  show ?case by (cases parent) simp
next
  case (Cons seg segs)
  obtain q l subs fs where parent: "parent = FolderItem q l subs fs" by (cases parent)
  show ?case
  proof (cases "find (\<lambda>item. folder_label item = seg) subs")
    case None
    then show ?thesis
      using Cons.IH [of "p @ seg @ ''/''" "FolderItem (p @ seg @ ''/'') seg [] []"]
      by (simp add: parent Let_def)
  next
    case (Some folder)
    have "mset (concat (map all_files (replace_first (\<lambda>item. folder_label item = seg)
              (walk segs (p @ seg @ ''/'') leaf folder) subs))) + mset (all_files folder) =
          mset (concat (map all_files subs)) + mset (all_files (walk segs (p @ seg @ ''/'') leaf folder))"
      using Some by (rule replace_first_concat_mset)
    then have "image_mset ident (mset (concat (map all_files (replace_first (\<lambda>item. folder_label item = seg)
              (walk segs (p @ seg @ ''/'') leaf folder) subs)))) + image_mset ident (mset (all_files folder)) =
          image_mset ident (mset (concat (map all_files subs))) +
          image_mset ident (mset (all_files (walk segs (p @ seg @ ''/'') leaf folder)))"
      by (metis image_mset_union)
    then show ?thesis
      using Cons.IH [of "p @ seg @ ''/''" folder] Some
      by (simp add: parent Let_def)
  qed
qed


lemma wf_paths_child:
  "wf_paths (FolderItem q l subs fs) \<Longrightarrow> c \<in> set subs \<Longrightarrow>
     folder_gitRelativePath c = q @ folder_label c @ ''/'' \<and> wf_paths c"
  by (simp add: list_all_iff)

lemma replace_first_list_all:
  "list_all Q xs \<Longrightarrow> Q y \<Longrightarrow> list_all Q (replace_first P y xs)"
  by (induction xs) auto

lemma walk_wf_paths:
  "wf_paths parent \<Longrightarrow> wf_paths (walk segs (folder_gitRelativePath parent) leaf parent)"
proof (induction segs arbitrary: parent)
  case Nil
  then show ?case by (cases parent) simp
next
  case (Cons seg segs)
  obtain q l subs fs where parent: "parent = FolderItem q l subs fs" by (cases parent)
  show ?case
  proof (cases "find (\<lambda>item. folder_label item = seg) subs")
    case None
    have "wf_paths (walk segs (q @ seg @ ''/'') leaf (FolderItem (q @ seg @ ''/'') seg [] []))"
      using Cons.IH [of "FolderItem (q @ seg @ ''/'') seg [] []"] by simp
    then show ?thesis
      using None Cons.prems by (simp add: parent Let_def)
  next
    case (Some folder)
    then have mem: "folder \<in> set subs" and lab: "folder_label folder = seg"
      using find_label by blast+
    then have path: "folder_gitRelativePath folder = q @ seg @ ''/''" and wf: "wf_paths folder"
      using Cons.prems wf_paths_child parent by blast+
    have "wf_paths (walk segs (q @ seg @ ''/'') leaf folder)"
      using Cons.IH [OF wf] path by simp
    then have "list_all (\<lambda>c. folder_gitRelativePath c = q @ folder_label c @ ''/'' \<and> wf_paths c)
        (replace_first (\<lambda>item. folder_label item = seg) (walk segs (q @ seg @ ''/'') leaf folder) subs)"
      using Cons.prems path lab by (intro replace_first_list_all) (simp_all add: parent)
    then show ?thesis
      using Some by (simp add: parent Let_def)
  qed
qed

lemma walk_attached:
  "wf_paths parent \<Longrightarrow>
     mset (attached (walk segs (folder_gitRelativePath parent) leaf parent)) =
     mset (attached parent) + {#(dir_of (folder_gitRelativePath parent) segs, leaf)#}"
proof (induction segs arbitrary: parent)
  case Nil
  then show ?case by (cases parent) (simp add: dir_of_def)
next
  case (Cons seg segs)
  obtain q l subs fs where parent: "parent = FolderItem q l subs fs" by (cases parent)
  have dir: "dir_of q (seg # segs) = dir_of (q @ seg @ ''/'') segs"
    by (simp add: dir_of_def)
  show ?case
  proof (cases "find (\<lambda>item. folder_label item = seg) subs")
    case None
    have "mset (attached (walk segs (q @ seg @ ''/'') leaf (FolderItem (q @ seg @ ''/'') seg [] []))) =
          {#(dir_of (q @ seg @ ''/'') segs, leaf)#}"
      using Cons.IH [of "FolderItem (q @ seg @ ''/'') seg [] []"] by simp
    then show ?thesis
      using None by (simp add: parent Let_def dir)
  next
    case (Some folder)
    then have mem: "folder \<in> set subs" and lab: "folder_label folder = seg"
      using find_label by blast+
    then have path: "folder_gitRelativePath folder = q @ seg @ ''/''" and wf: "wf_paths folder"
      using Cons.prems wf_paths_child parent by blast+
    have ih: "mset (attached (walk segs (q @ seg @ ''/'') leaf folder)) =
          mset (attached folder) + {#(dir_of (q @ seg @ ''/'') segs, leaf)#}"
      using Cons.IH [OF wf] path by simp
    have "mset (concat (map attached (replace_first (\<lambda>item. folder_label item = seg)
              (walk segs (q @ seg @ ''/'') leaf folder) subs))) + mset (attached folder) =
          mset (concat (map attached subs)) + mset (attached (walk segs (q @ seg @ ''/'') leaf folder))"
      using Some by (rule replace_first_concat_mset)
    then have "mset (concat (map attached (replace_first (\<lambda>item. folder_label item = seg)
              (walk segs (q @ seg @ ''/'') leaf folder) subs))) =
          mset (concat (map attached subs)) + {#(dir_of (q @ seg @ ''/'') segs, leaf)#}"
      using ih by simp
    then show ?thesis
      using Some by (simp add: parent Let_def dir)
  qed
qed

lemma prefix_paths_root: "p \<in> set (prefix_paths p segs)"
  by (cases segs) simp_all

lemma walk_folder_paths:
  "wf_paths parent \<Longrightarrow>
     set (folder_paths (walk segs (folder_gitRelativePath parent) leaf parent)) =
     set (folder_paths parent) \<union> set (prefix_paths (folder_gitRelativePath parent) segs)"
proof (induction segs arbitrary: parent)
  case Nil
  then show ?case by (cases parent) auto
next
  case (Cons seg segs)
  obtain q l subs fs where parent: "parent = FolderItem q l subs fs" by (cases parent)
  show ?case
  proof (cases "find (\<lambda>item. folder_label item = seg) subs")
    case None
    have "set (folder_paths (walk segs (q @ seg @ ''/'') leaf (FolderItem (q @ seg @ ''/'') seg [] []))) =
          set (prefix_paths (q @ seg @ ''/'') segs)"
      using Cons.IH [of "FolderItem (q @ seg @ ''/'') seg [] []"] prefix_paths_root by auto
    then show ?thesis
      using None by (auto simp: parent Let_def)
  next
    case (Some folder)
    then have mem: "folder \<in> set subs" and lab: "folder_label folder = seg"
      using find_label by blast+
    then have path: "folder_gitRelativePath folder = q @ seg @ ''/''" and wf: "wf_paths folder"
      using Cons.prems wf_paths_child parent by blast+
    have ih: "set (folder_paths (walk segs (q @ seg @ ''/'') leaf folder)) =
          set (folder_paths folder) \<union> set (prefix_paths (q @ seg @ ''/'') segs)"
      using Cons.IH [OF wf] path by simp
    then have "set (concat (map folder_paths (replace_first (\<lambda>item. folder_label item = seg)
              (walk segs (q @ seg @ ''/'') leaf folder) subs))) =
          set (concat (map folder_paths subs)) \<union>
          set (folder_paths (walk segs (q @ seg @ ''/'') leaf folder))"
      using Some by (intro replace_first_concat_set) auto
    moreover have "set (folder_paths folder) \<subseteq> set (concat (map folder_paths subs))"
      using mem by auto
    ultimately have "set (concat (map folder_paths (replace_first (\<lambda>item. folder_label item = seg)
              (walk segs (q @ seg @ ''/'') leaf folder) subs))) =
          set (concat (map folder_paths subs)) \<union> set (prefix_paths (q @ seg @ ''/'') segs)"
      using ih by auto
    then show ?thesis
      using Some by (simp add: parent Let_def)
  qed
qed


lemma replace_first_map:
  "find P xs = Some x \<Longrightarrow> f y = f x \<Longrightarrow> map f (replace_first P y xs) = map f xs"
  by (induction xs) (auto split: if_splits)

lemma walk_edges:
  "wf_paths parent \<Longrightarrow>
     set (edges (walk segs (folder_gitRelativePath parent) leaf parent)) =
     set (edges parent) \<union> set (prefix_edges (folder_gitRelativePath parent) segs)"
proof (induction segs arbitrary: parent)
  case Nil
  then show ?case by (cases parent) auto
next
  case (Cons seg segs)
  obtain q l subs fs where parent: "parent = FolderItem q l subs fs" by (cases parent)
  show ?case
  proof (cases "find (\<lambda>item. folder_label item = seg) subs")
    case None
    have "set (edges (walk segs (q @ seg @ ''/'') leaf (FolderItem (q @ seg @ ''/'') seg [] []))) =
          set (prefix_edges (q @ seg @ ''/'') segs)"
      using Cons.IH [of "FolderItem (q @ seg @ ''/'') seg [] []"] by simp
    then show ?thesis
      using None by (auto simp: parent Let_def)
  next
    case (Some folder)
    then have mem: "folder \<in> set subs" and lab: "folder_label folder = seg"
      using find_label by blast+
    then have path: "folder_gitRelativePath folder = q @ seg @ ''/''" and wf: "wf_paths folder"
      using Cons.prems wf_paths_child parent by blast+
    let ?new = "walk segs (q @ seg @ ''/'') leaf folder"
    let ?subs = "replace_first (\<lambda>item. folder_label item = seg) ?new subs"
    have ih: "set (edges ?new) = set (edges folder) \<union> set (prefix_edges (q @ seg @ ''/'') segs)"
      using Cons.IH [OF wf] path by simp
    then have "set (concat (map edges ?subs)) = set (concat (map edges subs)) \<union> set (edges ?new)"
      using Some by (intro replace_first_concat_set) auto
    moreover have "set (edges folder) \<subseteq> set (concat (map edges subs))"
      using mem by auto
    ultimately have below: "set (concat (map edges ?subs)) =
          set (concat (map edges subs)) \<union> set (prefix_edges (q @ seg @ ''/'') segs)"
      using ih by auto
    have here: "map (\<lambda>c. (q, folder_gitRelativePath c)) ?subs =
          map (\<lambda>c. (q, folder_gitRelativePath c)) subs"
      using Some by (rule replace_first_map) simp
    have edge: "(q, q @ seg @ ''/'') \<in> set (map (\<lambda>c. (q, folder_gitRelativePath c)) subs)"
      using mem path by force
    show ?thesis
      using Some below here edge by (simp add: parent Let_def) blast
  qed
qed

lemma find_None_label:
  "find (\<lambda>item. folder_label item = seg) subs = None \<Longrightarrow> seg \<notin> set (map folder_label subs)"
  by (auto simp: find_None_iff)

lemma walk_unique_folder_labels:
  "unique_folder_labels parent \<Longrightarrow> unique_folder_labels (walk segs p leaf parent)"
proof (induction segs arbitrary: p parent)
  case Nil
  then show ?case by (cases parent) simp
next
  case (Cons seg segs)
  obtain q l subs fs where parent: "parent = FolderItem q l subs fs" by (cases parent)
  show ?case
  proof (cases "find (\<lambda>item. folder_label item = seg) subs")
    case None
    have "unique_folder_labels (walk segs (p @ seg @ ''/'') leaf (FolderItem (p @ seg @ ''/'') seg [] []))"
      by (rule Cons.IH) simp
    then show ?thesis
      using None Cons.prems find_None_label [OF None] by (simp add: parent Let_def)
  next
    case (Some folder)
    then have mem: "folder \<in> set subs"
      using find_label by blast
    then have "unique_folder_labels folder"
      using Cons.prems by (simp add: parent list_all_iff)
    then have new: "unique_folder_labels (walk segs (p @ seg @ ''/'') leaf folder)"
      by (rule Cons.IH)
    have "map folder_label (replace_first (\<lambda>item. folder_label item = seg)
            (walk segs (p @ seg @ ''/'') leaf folder) subs) = map folder_label subs"
      using Some by (rule replace_first_map) simp
    moreover have "list_all unique_folder_labels (replace_first (\<lambda>item. folder_label item = seg)
            (walk segs (p @ seg @ ''/'') leaf folder) subs)"
      using Cons.prems new by (intro replace_first_list_all) (simp_all add: parent)
    ultimately show ?thesis
      using Some Cons.prems by (simp add: parent Let_def)
  qed
qed

section \<open>The nested build, in closed form\<close>

lemma buildOne_root [simp]:
  "folder_gitRelativePath (buildOneFileWithFolder cwd root file rp) = folder_gitRelativePath root"
  "folder_label (buildOneFileWithFolder cwd root file rp) = folder_label root"
  by (simp_all add: buildOneFileWithFolder_def Let_def)

lemma buildOne_all_files:
  "mset (map ident (all_files (buildOneFileWithFolder cwd root file rp))) =
     mset (map ident (all_files root)) + {#ident file#}"
  using walk_all_files [of _ rp
      "\<lparr>uri = uri file, gitRelativePath = gitRelativePath file, status = status file, label = l\<rparr>"
      root for l]
  by (simp add: buildOneFileWithFolder_def Let_def ident_def)

lemma insert_all_root [simp]:
  "folder_gitRelativePath (foldl (\<lambda>r f. buildOneFileWithFolder cwd r f rp) root fs) =
     folder_gitRelativePath root"
  "folder_label (foldl (\<lambda>r f. buildOneFileWithFolder cwd r f rp) root fs) = folder_label root"
  by (induction fs arbitrary: root) simp_all

lemma insert_all_all_files:
  "mset (map ident (all_files (foldl (\<lambda>r f. buildOneFileWithFolder cwd r f rp) root fs))) =
     mset (map ident (all_files root)) + mset (map ident fs)"
proof (induction fs arbitrary: root)
  case Nil
  show ?case by simp
next
  case (Cons a fs)
  show ?case
    using Cons.IH [of "buildOneFileWithFolder cwd root a rp"] buildOne_all_files [of cwd root a rp]
    by simp
qed

lemma buildOne_nested:
  assumes "wf_paths root" "folder_gitRelativePath root = []"
  shows "wf_paths (buildOneFileWithFolder cwd root file [])"
    and "mset (attached (buildOneFileWithFolder cwd root file [])) =
           mset (attached root) + {#(nested_dir (gitRelativePath file), nested_node (ident file))#}"
    and "set (folder_paths (buildOneFileWithFolder cwd root file [])) =
           set (folder_paths root) \<union>
           set (prefix_paths [] (butlast (split_on (\<lambda>c. c = slash) (gitRelativePath file))))"
    and "set (edges (buildOneFileWithFolder cwd root file [])) =
           set (edges root) \<union>
           set (prefix_edges [] (butlast (split_on (\<lambda>c. c = slash) (gitRelativePath file))))"
  using walk_wf_paths [OF assms(1)] walk_attached [OF assms(1)] walk_folder_paths [OF assms(1)]
    walk_edges [OF assms(1)] assms(2)
  by (simp_all add: buildOneFileWithFolder_def Let_def nested_dir_def nested_node_def ident_def)

lemma insert_all_nested:
  assumes "wf_paths root" "folder_gitRelativePath root = []"
  shows "wf_paths (foldl (\<lambda>r f. buildOneFileWithFolder cwd r f []) root fs) \<and>
         mset (attached (foldl (\<lambda>r f. buildOneFileWithFolder cwd r f []) root fs)) =
           mset (attached root) +
           image_mset (\<lambda>i. (nested_dir (fst (snd i)), nested_node i)) (mset (map ident fs)) \<and>
         set (folder_paths (foldl (\<lambda>r f. buildOneFileWithFolder cwd r f []) root fs)) =
           set (folder_paths root) \<union>
           (\<Union>i \<in> set (map ident fs).
              set (prefix_paths [] (butlast (split_on (\<lambda>c. c = slash) (fst (snd i)))))) \<and>
         set (edges (foldl (\<lambda>r f. buildOneFileWithFolder cwd r f []) root fs)) =
           set (edges root) \<union>
           (\<Union>i \<in> set (map ident fs).
              set (prefix_edges [] (butlast (split_on (\<lambda>c. c = slash) (fst (snd i))))))"
  using assms
proof (induction fs arbitrary: root)
  case Nil
  then show ?case by simp
next
  case (Cons a fs)
  have wf: "wf_paths (buildOneFileWithFolder cwd root a [])"
    and path: "folder_gitRelativePath (buildOneFileWithFolder cwd root a []) = []"
    using Cons.prems buildOne_nested(1) by simp_all
  have snd_ident: "fst (snd (ident a)) = gitRelativePath a"
    by (simp add: ident_def)
  show ?case
    using Cons.IH [OF wf path] buildOne_nested(2-4) [OF Cons.prems, of cwd a]
    by (simp add: snd_ident Un_assoc)
qed

lemma insert_all_unique_folder_labels:
  "unique_folder_labels root \<Longrightarrow>
     unique_folder_labels (foldl (\<lambda>r f. buildOneFileWithFolder cwd r f rp) root fs)"
  by (induction fs arbitrary: root)
     (simp_all add: buildOneFileWithFolder_def Let_def walk_unique_folder_labels)

section \<open>Flattening and nesting a tree\<close>

lemma relabel_ident [simp]: "ident (relabel cwd rp f) = ident f"
  by (simp add: relabel_def ident_def)

lemma flatten_into:
  "folder_gitRelativePath (fst (buildFilesWithoutFolder cwd root f)) = folder_gitRelativePath root \<and>
   folder_label (fst (buildFilesWithoutFolder cwd root f)) = folder_label root \<and>
   subFolders (fst (buildFilesWithoutFolder cwd root f)) = subFolders root \<and>
   image_mset ident (mset (files (fst (buildFilesWithoutFolder cwd root f)))) =
     image_mset ident (mset (files root)) + image_mset ident (mset (all_files f))"
proof (induction cwd root f rule: buildFilesWithoutFolder.induct)
  case (1 cwd root p l subs fs)
  let ?step = "\<lambda>r f. fst (buildFilesWithoutFolder cwd r f)"
  have fold: "folder_gitRelativePath (foldl ?step r xs) = folder_gitRelativePath r \<and>
      folder_label (foldl ?step r xs) = folder_label r \<and>
      subFolders (foldl ?step r xs) = subFolders r \<and>
      image_mset ident (mset (files (foldl ?step r xs))) =
        image_mset ident (mset (files r)) + image_mset ident (mset (concat (map all_files xs)))"
    if "set xs \<subseteq> set subs" for r xs
    using that
  proof (induction xs arbitrary: r)
    case Nil
    show ?case by simp
  next
    case (Cons x xs)
    have x: "x \<in> set subs" and xs: "set xs \<subseteq> set subs"
      using Cons.prems by simp_all
    show ?case
      using Cons.IH [OF xs, of "?step r x"] "1.IH" [OF refl x, of r]
      by (simp add: ac_simps)
  qed
  show ?case
    using fold [OF subset_refl] by (simp add: ac_simps multiset.map_comp comp_def)
qed

lemma showFilesWithoutFolder_files:
  "\<exists>fs. showFilesWithoutFolder cwd t =
            FolderItem (folder_gitRelativePath t) (folder_label t) [] fs \<and>
        image_mset ident (mset fs) = image_mset ident (mset (all_files t))"
proof -
  let ?step = "\<lambda>r f. fst (buildFilesWithoutFolder cwd r f)"
  have fold: "folder_gitRelativePath (foldl ?step r xs) = folder_gitRelativePath r \<and>
      folder_label (foldl ?step r xs) = folder_label r \<and>
      image_mset ident (mset (files (foldl ?step r xs))) =
        image_mset ident (mset (files r)) + image_mset ident (mset (concat (map all_files xs)))"
    for r xs
  proof (induction xs arbitrary: r)
    case Nil
    show ?case by simp
  next
    case (Cons x xs)
    show ?case
      using Cons [of "?step r x"] flatten_into [of cwd r x] by (simp add: ac_simps)
  qed
  obtain p l subs fs where t: "t = FolderItem p l subs fs" by (cases t)
  show ?thesis
    using fold [of t subs] by (simp add: showFilesWithoutFolder_def Let_def t)
qed

lemma nest_root [simp]:
  "folder_gitRelativePath (buildFilesWithFolder cwd t) = folder_gitRelativePath t"
  "folder_label (buildFilesWithFolder cwd t) = folder_label t"
  by (cases t; simp)+

lemma nest_all_files:
  "image_mset ident (mset (all_files (buildFilesWithFolder cwd t))) =
     image_mset ident (mset (all_files t))"
proof (induction cwd t rule: buildFilesWithFolder.induct)
  case (1 cwd p l subs fs)
  have below: "image_mset ident (mset (concat (map all_files (map (buildFilesWithFolder cwd) xs)))) =
      image_mset ident (mset (concat (map all_files xs)))" if "set xs \<subseteq> set subs" for xs
    using that
  proof (induction xs)
    case Nil
    show ?case by simp
  next
    case (Cons x xs)
    then show ?case using "1.IH" [of x] by simp
  qed
  show ?case
    using insert_all_all_files [of cwd p "FolderItem p l (map (buildFilesWithFolder cwd) subs) []" fs]
      below [OF subset_refl]
    by (simp add: ac_simps)
qed

lemma nest_of_flat:
  "buildFilesWithFolder cwd (FolderItem [] lbl [] fs) =
     foldl (\<lambda>r f. buildOneFileWithFolder cwd r f []) (FolderItem [] lbl [] []) fs"
  by simp

lemma nested_build:
  "buildCommitFolder cwd lbl R True =
     foldl (\<lambda>r f. buildOneFileWithFolder cwd r f []) (FolderItem [] lbl [] []) R"
  by (simp add: buildCommitFolder_def buildFileTree_def)

lemma nested_shape:
  "wf_paths (foldl (\<lambda>r f. buildOneFileWithFolder cwd r f []) (FolderItem [] lbl [] []) fs) \<and>
   mset (attached (foldl (\<lambda>r f. buildOneFileWithFolder cwd r f []) (FolderItem [] lbl [] []) fs)) =
     image_mset (\<lambda>i. (nested_dir (fst (snd i)), nested_node i)) (image_mset ident (mset fs)) \<and>
   set (folder_paths (foldl (\<lambda>r f. buildOneFileWithFolder cwd r f []) (FolderItem [] lbl [] []) fs)) =
     insert [] (\<Union>i \<in> set_mset (image_mset ident (mset fs)).
        set (prefix_paths [] (butlast (split_on (\<lambda>c. c = slash) (fst (snd i)))))) \<and>
   set (edges (foldl (\<lambda>r f. buildOneFileWithFolder cwd r f []) (FolderItem [] lbl [] []) fs)) =
     (\<Union>i \<in> set_mset (image_mset ident (mset fs)).
        set (prefix_edges [] (butlast (split_on (\<lambda>c. c = slash) (fst (snd i))))))"
  using insert_all_nested [of "FolderItem [] lbl [] []" cwd fs] by simp

lemma nested_all_files:
  "image_mset ident (mset (all_files (buildCommitFolder cwd lbl R True))) = image_mset ident (mset R)"
  using insert_all_all_files [of cwd "[]" "FolderItem [] lbl [] []" R] by (simp add: nested_build)

text \<open>
  C6. For every record list, the nested build, flattened at its root and
  nested again at its root, has the same set of folder paths, the same pairs of
  parent and child folder, and every file node attached to a folder of the same
  path as in the nested build.
\<close>

theorem flatten_then_nest:
  "set (folder_paths (showFilesWithFolder cwd (showFilesWithoutFolder cwd
          (buildCommitFolder cwd lbl R True)))) =
     set (folder_paths (buildCommitFolder cwd lbl R True)) \<and>
   set (edges (showFilesWithFolder cwd (showFilesWithoutFolder cwd
          (buildCommitFolder cwd lbl R True)))) =
     set (edges (buildCommitFolder cwd lbl R True)) \<and>
   mset (attached (showFilesWithFolder cwd (showFilesWithoutFolder cwd
          (buildCommitFolder cwd lbl R True)))) =
     mset (attached (buildCommitFolder cwd lbl R True))"
proof -
  let ?T = "buildCommitFolder cwd lbl R True"
  let ?build = "\<lambda>xs. foldl (\<lambda>r f. buildOneFileWithFolder cwd r f []) (FolderItem [] lbl [] []) xs"
  obtain fs where flat: "showFilesWithoutFolder cwd ?T = FolderItem [] lbl [] fs"
    and fs: "image_mset ident (mset fs) = image_mset ident (mset (all_files ?T))"
    using showFilesWithoutFolder_files [of cwd ?T] by (auto simp: nested_build)
  have same: "image_mset ident (mset fs) = image_mset ident (mset R)"
    using fs nested_all_files by simp
  have again: "showFilesWithFolder cwd (showFilesWithoutFolder cwd ?T) = ?build fs"
    unfolding flat showFilesWithFolder_def by (rule nest_of_flat)
  have first: "?T = ?build R"
    by (rule nested_build)
  show ?thesis
    unfolding again unfolding first
    using nested_shape [of cwd lbl fs] nested_shape [of cwd lbl R]
    by (simp add: same)
qed

text \<open>
  C4. For every record list, nesting the nested build, flattening the result at
  its root and nesting again gives a tree with the same multiset of file
  identities (uri, relative path and status), every file node attached to a
  folder of the same path, and with the same label, as in the nested build.
\<close>

theorem nest_flatten_nest:
  "mset (map ident (all_files (showFilesWithFolder cwd (showFilesWithoutFolder cwd
          (showFilesWithFolder cwd (buildCommitFolder cwd lbl R True)))))) =
     mset (map ident (all_files (buildCommitFolder cwd lbl R True))) \<and>
   mset (attached (showFilesWithFolder cwd (showFilesWithoutFolder cwd
          (showFilesWithFolder cwd (buildCommitFolder cwd lbl R True))))) =
     mset (attached (buildCommitFolder cwd lbl R True))"
proof -
  let ?T = "buildCommitFolder cwd lbl R True"
  let ?T1 = "showFilesWithFolder cwd ?T"
  let ?build = "\<lambda>xs. foldl (\<lambda>r f. buildOneFileWithFolder cwd r f []) (FolderItem [] lbl [] []) xs"
  have root1: "folder_gitRelativePath ?T1 = []" "folder_label ?T1 = lbl"
    by (simp_all add: showFilesWithFolder_def nested_build)
  obtain fs where flat: "showFilesWithoutFolder cwd ?T1 = FolderItem [] lbl [] fs"
    and fs: "image_mset ident (mset fs) = image_mset ident (mset (all_files ?T1))"
    using showFilesWithoutFolder_files [of cwd ?T1] by (auto simp: root1)
  have same: "image_mset ident (mset fs) = image_mset ident (mset R)"
    using fs nest_all_files [of cwd ?T] nested_all_files [of cwd lbl R]
    by (simp add: showFilesWithFolder_def)
  have again: "showFilesWithFolder cwd (showFilesWithoutFolder cwd ?T1) = ?build fs"
    unfolding flat unfolding showFilesWithFolder_def by (rule nest_of_flat)
  have first: "?T = ?build R"
    by (rule nested_build)
  have all: "image_mset ident (mset (all_files (?build fs))) = image_mset ident (mset fs)"
    using insert_all_all_files [of cwd "[]" "FolderItem [] lbl [] []" fs] by simp
  have all': "image_mset ident (mset (all_files (?build R))) = image_mset ident (mset R)"
    using insert_all_all_files [of cwd "[]" "FolderItem [] lbl [] []" R] by simp
  have att: "mset (attached (?build fs)) = mset (attached (?build R))"
    using nested_shape [of cwd lbl fs] nested_shape [of cwd lbl R] by (simp add: same)
  show ?thesis
    unfolding again unfolding first
    using all all' att same by simp
qed

section \<open>Unique labels\<close>

lemma split_from_not_Nil [simp]: "split_from sep piece s \<noteq> []"
  by (induction s arbitrary: piece) simp_all

lemma split_from_join:
  "dir_of [] (butlast (split_from (\<lambda>c. c = slash) piece s)) @
     last (split_from (\<lambda>c. c = slash) piece s) = piece @ s"
proof (induction s arbitrary: piece)
  case Nil
  show ?case by (simp add: dir_of_def)
next
  case (Cons c cs)
  show ?case
  proof (cases "c = slash")
    case True
    then show ?thesis
      using Cons [of "[]"] by (simp add: dir_of_def)
  next
    case False
    then show ?thesis
      using Cons [of "piece @ [c]"] by simp
  qed
qed

lemma nested_dir_label:
  "nested_dir p @ last (split_on (\<lambda>c. c = slash) p) = p"
  using split_from_join [of "[]" p] by (simp add: nested_dir_def split_on_def)

lemma nested_key_inj:
  "inj (\<lambda>p. (nested_dir p, last (split_on (\<lambda>c. c = slash) p)))"
proof (rule injI)
  fix p q
  assume "(nested_dir p, last (split_on (\<lambda>c. c = slash) p)) =
          (nested_dir q, last (split_on (\<lambda>c. c = slash) q))"
  then have "nested_dir p @ last (split_on (\<lambda>c. c = slash) p) =
             nested_dir q @ last (split_on (\<lambda>c. c = slash) q)"
    by simp
  then show "p = q"
    by (simp only: nested_dir_label)
qed

lemma distinct_concat_part:
  "distinct (concat (map g xs)) \<Longrightarrow> x \<in> set xs \<Longrightarrow> distinct (g x)"
  by (induction xs) auto

lemma unique_file_labels_attached:
  "distinct (map (\<lambda>(d, f). (d, label f)) (attached t)) \<Longrightarrow> unique_file_labels t"
proof (induction t)
  case (FolderItem p l subs fs)
  have here: "distinct (map (\<lambda>f. (p, label f)) fs)"
    and below: "distinct (concat (map (\<lambda>s. map (\<lambda>(d, f). (d, label f)) (attached s)) subs))"
    using FolderItem.prems by (simp_all add: comp_def map_concat)
  have "distinct (map label fs)"
    using here by (simp add: distinct_map inj_on_def)
  moreover have "unique_file_labels s" if "s \<in> set subs" for s
    using FolderItem.IH [OF that] distinct_concat_part [OF below that] by simp
  ultimately show ?case
    by (simp add: list_all_iff)
qed

lemma build_unique_labels:
  assumes "distinct (map gitRelativePath fs)"
  shows "unique_labels
           (foldl (\<lambda>r f. buildOneFileWithFolder cwd r f []) (FolderItem [] lbl [] []) fs)"
proof -
  let ?T = "foldl (\<lambda>r f. buildOneFileWithFolder cwd r f []) (FolderItem [] lbl [] []) fs"
  let ?k = "\<lambda>p. (nested_dir p, last (split_on (\<lambda>c. c = slash) p))"
  have "mset (attached ?T) =
      image_mset (\<lambda>i. (nested_dir (fst (snd i)), nested_node i)) (image_mset ident (mset fs))"
    using nested_shape [of cwd lbl fs] by simp
  then have "image_mset (\<lambda>(d, f). (d, label f)) (mset (attached ?T)) =
      image_mset (\<lambda>f. ?k (gitRelativePath f)) (mset fs)"
    by (simp add: multiset.map_comp comp_def nested_node_def ident_def)
  then have "mset (map (\<lambda>(d, f). (d, label f)) (attached ?T)) =
      mset (map ?k (map gitRelativePath fs))"
    by (simp add: comp_def)
  moreover have "distinct (map ?k (map gitRelativePath fs))"
    using assms nested_key_inj by (simp only: distinct_map) (meson inj_on_subset subset_UNIV)
  ultimately have "distinct (map (\<lambda>(d, f). (d, label f)) (attached ?T))"
    using mset_eq_imp_distinct_iff by blast
  then have "unique_file_labels ?T"
    by (rule unique_file_labels_attached)
  moreover have "unique_folder_labels ?T"
    by (rule insert_all_unique_folder_labels) simp
  ultimately show ?thesis
    by (simp add: unique_labels_def)
qed

lemma flatten_unique_folder_labels:
  "unique_folder_labels (showFilesWithoutFolder cwd t)"
  by (simp add: showFilesWithoutFolder_def Let_def)

lemma nest_unique_folder_labels:
  "unique_folder_labels t \<Longrightarrow> unique_folder_labels (buildFilesWithFolder cwd t)"
proof (induction cwd t rule: buildFilesWithFolder.induct)
  case (1 cwd p l subs fs)
  have "list_all unique_folder_labels (map (buildFilesWithFolder cwd) subs)"
    using "1.IH" "1.prems" by (simp add: list_all_iff)
  moreover have "map folder_label (map (buildFilesWithFolder cwd) subs) = map folder_label subs"
    by simp
  ultimately have "unique_folder_labels (FolderItem p l (map (buildFilesWithFolder cwd) subs) [])"
    using "1.prems" by (simp add: comp_def)
  then show ?case
    unfolding buildFilesWithFolder.simps by (rule insert_all_unique_folder_labels)
qed

text \<open>
  C9, as the code has it. In the nested build of records with pairwise
  different relative paths no folder has two child folders with the same label
  or two files with the same label, and this still holds after flattening the
  tree at its root and nesting it again. In every tree, flattening and nesting
  keep the labels of the child folders of a folder different.
\<close>

theorem nested_unique_labels:
  assumes "distinct (map gitRelativePath R)"
  shows "unique_labels (buildCommitFolder cwd lbl R True) \<and>
         unique_labels (showFilesWithFolder cwd (showFilesWithoutFolder cwd
           (buildCommitFolder cwd lbl R True))) \<and>
         unique_folder_labels (showFilesWithoutFolder cwd t) \<and>
         (unique_folder_labels t \<longrightarrow> unique_folder_labels (showFilesWithFolder cwd t))"
proof -
  have transformers: "unique_folder_labels (showFilesWithoutFolder cwd t) \<and>
      (unique_folder_labels t \<longrightarrow> unique_folder_labels (showFilesWithFolder cwd t))"
    using flatten_unique_folder_labels nest_unique_folder_labels
    by (simp add: showFilesWithFolder_def)
  let ?T = "buildCommitFolder cwd lbl R True"
  let ?build = "\<lambda>xs. foldl (\<lambda>r f. buildOneFileWithFolder cwd r f []) (FolderItem [] lbl [] []) xs"
  obtain fs where flat: "showFilesWithoutFolder cwd ?T = FolderItem [] lbl [] fs"
    and fs: "image_mset ident (mset fs) = image_mset ident (mset (all_files ?T))"
    using showFilesWithoutFolder_files [of cwd ?T] by (auto simp: nested_build)
  have "image_mset ident (mset fs) = image_mset ident (mset R)"
    using fs nested_all_files by simp
  then have "image_mset (\<lambda>i. fst (snd i)) (image_mset ident (mset fs)) =
      image_mset (\<lambda>i. fst (snd i)) (image_mset ident (mset R))"
    by simp
  then have "mset (map gitRelativePath fs) = mset (map gitRelativePath R)"
    by (simp add: multiset.map_comp comp_def ident_def)
  then have fs_distinct: "distinct (map gitRelativePath fs)"
    using assms mset_eq_imp_distinct_iff by blast
  have again: "showFilesWithFolder cwd (showFilesWithoutFolder cwd ?T) = ?build fs"
    unfolding flat showFilesWithFolder_def by (rule nest_of_flat)
  have first: "?T = ?build R"
    by (rule nested_build)
  have "unique_labels ?T \<and>
      unique_labels (showFilesWithFolder cwd (showFilesWithoutFolder cwd ?T))"
    unfolding again unfolding first
    using build_unique_labels [OF assms] build_unique_labels [OF fs_distinct] by simp
  with transformers show ?thesis
    by simp
qed

theorem nested_unique_labels_witness:
  "distinct (map gitRelativePath example_records) \<and>
   unique_labels (buildCommitFolder ''/'' ''Changes of Commit 1'' example_records True) \<and>
   unique_labels (showFilesWithFolder ''/'' (showFilesWithoutFolder ''/''
     (buildCommitFolder ''/'' ''Changes of Commit 1'' example_records True)))"
proof -
  have d: "distinct (map gitRelativePath example_records)"
    by (simp add: example_records_def)
  show ?thesis
    using d nested_unique_labels [OF d, of "''/''" "''Changes of Commit 1''"] by simp
qed

text \<open>
  C9 as stated fails for the flatten transformer: when a file of the root is
  named like the label that another file gets, the flattened root has two
  files with the same label.
\<close>

theorem unique_labels_counterexample:
  "distinct (map gitRelativePath clash_records) \<and>
   \<not> unique_labels (showFilesWithoutFolder ''/''
       (buildCommitFolder ''/'' ''Changes of Commit 1'' clash_records True))"
  by (simp add: clash_records_def label_separator_def buildCommitFolder_def buildFileTree_def
      buildOneFileWithFolder_def split_on_def showFilesWithoutFolder_def relabel_def
      relative_def resolve_def normalize_step_def getFormatedLabel_def basename_def dirname_def
      unique_labels_def)

end
